theory Spec2Isabelle
  imports Main "HOL-Library.Word"
begin

section \<open>Data model of the GIF panel (ts/components/fun/panels/FunPanelGifs.tsx)\<close>

text \<open>
  The sections of the panel. \<open>FunSectionCommon\<close> and \<open>FunGifsCategory\<close> are string enums
  declared in \<open>../constants\<close>; the panel uses the members listed here by name. The
  TypeScript types are erased at run time and \<open>handleSelectSection\<close> casts an arbitrary
  key (\<open>key as FunGifsCategory\<close>), so a section is any string: \<open>Unlisted s\<close> stands for a
  run-time value that is none of the members the panel names.
\<close>

datatype FunGifsSection =
    SearchResults
  | Recents
  | Trending
  | Celebrate
  | Love
  | ThumbsUp
  | Surprised
  | Excited
  | Sad
  | Angry
  | Unlisted string

text \<open>
  \<open>GifMediaType\<close> is \<open>{url, width, height}\<close>. The object itself is the key of the
  \<open>WeakMap\<close> in front of the blob cache, so the model gives every media object the
  identity of its allocation, \<open>oid\<close>: two objects with the same fields and different
  \<open>oid\<close> are different keys of the WeakMap and the same key (\<open>url\<close>) of the LRU cache.
\<close>

record GifMediaType =
  oid :: nat
  url :: string
  width :: nat
  height :: nat

record GifType =
  gif_id :: string
  title :: string
  description :: string
  previewMedia :: GifMediaType
  attachmentMedia :: GifMediaType

record GifsQuery =
  selectedSection :: FunGifsSection
  searchQuery :: string

text \<open>
  \<open>GifsPaginated\<close> (from \<open>../data/gifs\<close>), as the panel reads and builds it:
  \<open>{ next, gifs }\<close>, \<open>next\<close> being the continuation cursor or null.
\<close>

record GifsPaginated =
  nextc :: "string option"
  gifs :: "GifType list"

type_synonym AbortSignal = nat

section \<open>The loader (lines 190-237)\<close>

text \<open>
  The loader is an async function: it either throws (\<open>strictAssert\<close>,
  \<open>missingCaseError\<close>), resolves at once with a page built from the recents, or returns
  what one of the two fetch functions of the context returns. The model returns the
  call it makes, or the error it throws.
\<close>

datatype loader_error =
    AssertionFailure string
  | MissingCase FunGifsSection

datatype loader_result =
    Resolved GifsPaginated
  | FetchGifsSearch string nat "string option" AbortSignal
  | FetchGifsFeatured nat "string option" AbortSignal

text \<open>\<open>const cursor = previousPage?.next ?? null\<close>\<close>

definition page_cursor :: "GifsPaginated option \<Rightarrow> string option" where
  "page_cursor previousPage = (case previousPage of None \<Rightarrow> None | Some p \<Rightarrow> nextc p)"

text \<open>\<open>const limit = cursor != null ? 30 : 10\<close>\<close>

definition page_limit :: "string option \<Rightarrow> nat" where
  "page_limit cursor = (if cursor \<noteq> None then 30 else 10)"

definition loader ::
  "GifType list \<Rightarrow> GifsQuery \<Rightarrow> GifsPaginated option \<Rightarrow> AbortSignal \<Rightarrow> loader_error + loader_result"
where
  "loader recentGifs query previousPage signal =
    (let cursor = page_cursor previousPage;
         limit = page_limit cursor
     in
      if searchQuery query \<noteq> '''' then
        Inr (FetchGifsSearch (searchQuery query) limit cursor signal)
      else if selectedSection query = SearchResults then
        Inl (AssertionFailure ''Section is search results when not searching'')
      else if selectedSection query = Recents then
        Inr (Resolved \<lparr> nextc = None, gifs = recentGifs \<rparr>)
      else if selectedSection query = Trending then
        Inr (FetchGifsFeatured limit cursor signal)
      else if selectedSection query = Celebrate then
        Inr (FetchGifsSearch ''celebrate'' limit cursor signal)
      else if selectedSection query = Love then
        Inr (FetchGifsSearch ''love'' limit cursor signal)
      else if selectedSection query = ThumbsUp then
        Inr (FetchGifsSearch ''thumbs-up'' limit cursor signal)
      else if selectedSection query = Surprised then
        Inr (FetchGifsSearch ''surprised'' limit cursor signal)
      else if selectedSection query = Excited then
        Inr (FetchGifsSearch ''excited'' limit cursor signal)
      else if selectedSection query = Sad then
        Inr (FetchGifsSearch ''sad'' limit cursor signal)
      else if selectedSection query = Angry then
        Inr (FetchGifsSearch ''angry'' limit cursor signal)
      else
        Inl (MissingCase (selectedSection query)))"

text \<open>The sections the loader has a case for when the search text is empty.\<close>

definition dispatched_sections :: "FunGifsSection list" where
  "dispatched_sections =
    [Recents, Trending, Celebrate, Love, ThumbsUp, Surprised, Excited, Sad, Angry]"

section \<open>The blob cache (lines 61-79)\<close>

text \<open>A \<open>Blob\<close> built from downloaded bytes (\<open>new Blob([bytes])\<close>); \<open>blob.size\<close> is its byte count.\<close>

type_synonym bytes = "8 word list"

datatype Blob = Blob bytes

fun blob_size :: "Blob \<Rightarrow> nat" where
  "blob_size (Blob bs) = length bs"

definition MAX_CACHE_SIZE :: nat where
  "MAX_CACHE_SIZE = 50 * 1024 * 1024"

text \<open>
  Modelled from the spec: the class \<open>LRUCache\<close> (package \<open>lru-cache\<close>) is not among the
  sources; the panel only constructs it with \<open>maxSize\<close> and \<open>sizeCalculation: blob => blob.size\<close>
  and calls \<open>get\<close> and \<open>set\<close>. The spec's durable tier: bounded by the total byte cost of
  its entries, keyed by url, the cost of an entry being the byte length of its buffer;
  eviction is least recently used by access order; an insertion that would exceed the
  bound evicts the oldest entries until it fits, and is rejected when the entry alone
  exceeds the bound. The entries are held least recently used first.
\<close>

record LRUCache =
  maxSize :: nat
  entries :: "(string \<times> Blob) list"

definition calculatedSize :: "(string \<times> Blob) list \<Rightarrow> nat" where
  "calculatedSize es = sum_list (map (\<lambda>e. blob_size (snd e)) es)"

text \<open>Drops the oldest entries, one at a time, until the rest costs at most \<open>budget\<close>.\<close>

fun evict :: "nat \<Rightarrow> (string \<times> Blob) list \<Rightarrow> (string \<times> Blob) list" where
  "evict budget [] = []"
| "evict budget (e # es) =
     (if calculatedSize (e # es) \<le> budget then e # es else evict budget es)"

definition lru_delete :: "string \<Rightarrow> (string \<times> Blob) list \<Rightarrow> (string \<times> Blob) list" where
  "lru_delete k es = filter (\<lambda>e. fst e \<noteq> k) es"

definition lru_set :: "LRUCache \<Rightarrow> string \<Rightarrow> Blob \<Rightarrow> LRUCache" where
  "lru_set c k b =
     (if maxSize c < blob_size b then c
      else c \<lparr> entries := evict (maxSize c - blob_size b) (lru_delete k (entries c)) @ [(k, b)] \<rparr>)"

definition lru_get :: "LRUCache \<Rightarrow> string \<Rightarrow> Blob option \<times> LRUCache" where
  "lru_get c k =
     (case map_of (entries c) k of
        None \<Rightarrow> (None, c)
      | Some b \<Rightarrow> (Some b, c \<lparr> entries := lru_delete k (entries c) @ [(k, b)] \<rparr>))"

text \<open>
  Modelled from the spec: the reads and writes of the durable tier as operations, and
  their runs. The access order of a history of operations lists the keys by their
  last access, the least recently accessed first: a \<open>get\<close> accesses its key, and so
  does a \<open>set\<close> that is not rejected.
\<close>

datatype lru_op =
    LruGet string
  | LruSet string Blob

fun lru_step :: "LRUCache \<Rightarrow> lru_op \<Rightarrow> LRUCache" where
  "lru_step c (LruGet k) = snd (lru_get c k)"
| "lru_step c (LruSet k b) = lru_set c k b"

definition lru_run :: "LRUCache \<Rightarrow> lru_op list \<Rightarrow> LRUCache" where
  "lru_run c ops = foldl lru_step c ops"

definition touch :: "string \<Rightarrow> string list \<Rightarrow> string list" where
  "touch k ks = filter (\<lambda>x. x \<noteq> k) ks @ [k]"

fun accessed :: "nat \<Rightarrow> string list \<Rightarrow> lru_op \<Rightarrow> string list" where
  "accessed bound ks (LruGet k) = touch k ks"
| "accessed bound ks (LruSet k b) = (if bound < blob_size b then ks else touch k ks)"

definition access_order :: "nat \<Rightarrow> lru_op list \<Rightarrow> string list" where
  "access_order bound ops = foldl (accessed bound) [] ops"

text \<open>The cache holds its entries in the order \<open>ks\<close> of last access.\<close>

definition in_access_order :: "LRUCache \<Rightarrow> string list \<Rightarrow> bool" where
  "in_access_order c ks =
     (distinct ks \<and> map fst (entries c) = filter (\<lambda>k. k \<in> fst ` set (entries c)) ks)"

text \<open>
  The two module-level caches: \<open>FunGifBlobCache\<close>, the LRU cache keyed by url, and
  \<open>FunGifBlobLiveCache\<close>, a \<open>WeakMap\<close> keyed by the media object. A WeakMap holds an
  entry as long as its key object is alive; \<open>collect\<close> is the garbage collection of a
  key object, which takes its entry away.
\<close>

record gif_caches =
  FunGifBlobCache :: LRUCache
  FunGifBlobLiveCache :: "nat \<Rightarrow> Blob option"

definition initial_caches :: gif_caches where
  "initial_caches =
     \<lparr> FunGifBlobCache = \<lparr> maxSize = MAX_CACHE_SIZE, entries = [] \<rparr>,
       FunGifBlobLiveCache = (\<lambda>_. None) \<rparr>"

text \<open>
  \<open>FunGifBlobLiveCache.get(gifMedia) ?? FunGifBlobCache.get(gifMedia.url) ?? null\<close>:
  the right operand of \<open>??\<close> is evaluated only when the left one is null or undefined,
  so the LRU cache is read (and the entry's recency renewed) only on a WeakMap miss.
\<close>

definition readGifMediaFromCache :: "gif_caches \<Rightarrow> GifMediaType \<Rightarrow> Blob option \<times> gif_caches" where
  "readGifMediaFromCache c gifMedia =
     (case FunGifBlobLiveCache c (oid gifMedia) of
        Some b \<Rightarrow> (Some b, c)
      | None \<Rightarrow>
          (case lru_get (FunGifBlobCache c) (url gifMedia) of
             (r, lru') \<Rightarrow> (r, c \<lparr> FunGifBlobCache := lru' \<rparr>)))"

definition saveGifMediaToCache :: "gif_caches \<Rightarrow> GifMediaType \<Rightarrow> Blob \<Rightarrow> gif_caches" where
  "saveGifMediaToCache c gifMedia blob =
     c \<lparr> FunGifBlobCache := lru_set (FunGifBlobCache c) (url gifMedia) blob,
         FunGifBlobLiveCache := (FunGifBlobLiveCache c) (oid gifMedia \<mapsto> blob) \<rparr>"

definition collect :: "gif_caches \<Rightarrow> nat \<Rightarrow> gif_caches" where
  "collect c i = c \<lparr> FunGifBlobLiveCache := (FunGifBlobLiveCache c) (i := None) \<rparr>"

text \<open>Sequences of cache operations, as the mounted items issue them.\<close>

datatype cache_op =
    Save GifMediaType Blob
  | Read GifMediaType
  | Collect nat

fun cache_step :: "gif_caches \<Rightarrow> cache_op \<Rightarrow> gif_caches" where
  "cache_step c (Save m b) = saveGifMediaToCache c m b"
| "cache_step c (Read m) = snd (readGifMediaFromCache c m)"
| "cache_step c (Collect i) = collect c i"

definition cache_run :: "gif_caches \<Rightarrow> cache_op list \<Rightarrow> gif_caches" where
  "cache_run c ops = foldl cache_step c ops"

text \<open>An operation that leaves the WeakMap entry of the object \<open>i\<close> as it is.\<close>

fun keeps_live :: "nat \<Rightarrow> cache_op \<Rightarrow> bool" where
  "keeps_live i (Save m b) = (oid m \<noteq> i)"
| "keeps_live i (Read m) = True"
| "keeps_live i (Collect j) = (j \<noteq> i)"

text \<open>The bound of the LRU cache, as a property of the caches.\<close>

definition within_bound :: "gif_caches \<Rightarrow> bool" where
  "within_bound c = (maxSize (FunGifBlobCache c) = MAX_CACHE_SIZE
     \<and> calculatedSize (entries (FunGifBlobCache c)) \<le> MAX_CACHE_SIZE)"

section \<open>The waterfall: range extractor and prefetch (lines 266-337)\<close>

definition GIF_WATERFALL_COLUMNS :: int where
  "GIF_WATERFALL_COLUMNS = 2"

text \<open>
  \<open>virtualizer.range\<close> is \<open>{ startIndex, endIndex } | null\<close>; the \<open>Range\<close> handed to a
  range extractor has \<open>overscan\<close> and \<open>count\<close> as well. Indexes are JavaScript numbers.
\<close>

record VisibleRange =
  startIndex :: int
  endIndex :: int

record Range = VisibleRange +
  overscan :: int
  count :: int

text \<open>
  \<open>rangeExtractor\<close> (lines 270-282). \<open>defaultRangeExtractor\<close> belongs to the virtualizer
  library and is taken as a parameter; \<open>count\<close> is \<open>items.length\<close>. \<open>unshift(0)\<close> puts 0 in
  front, \<open>push(count - 1)\<close> puts the last index at the end.
\<close>

definition rangeExtractor :: "(Range \<Rightarrow> int list) \<Rightarrow> nat \<Rightarrow> Range \<Rightarrow> int list" where
  "rangeExtractor defaultRangeExtractor n rng =
     (let indexes = defaultRangeExtractor rng;
          indexes = (if 0 \<notin> set indexes then 0 # indexes else indexes);
          indexes = (if int n - 1 \<notin> set indexes then indexes @ [int n - 1] else indexes)
      in indexes)"

text \<open>\<open>const lastIndex = virtualizer.range?.endIndex ?? -1\<close>\<close>

definition lastIndex :: "VisibleRange option \<Rightarrow> int" where
  "lastIndex rng = (case rng of None \<Rightarrow> - 1 | Some r \<Rightarrow> endIndex r)"

text \<open>
  The prefetch effect (lines 315-337): \<open>True\<close> when the effect calls \<open>fetchNextPage()\<close>.
  The arguments are the dependencies of the effect: \<open>lastIndex\<close>, \<open>count\<close>,
  \<open>queryState.hasNextPage\<close> and \<open>queryState.pending\<close>.
\<close>

definition prefetch_effect :: "int \<Rightarrow> nat \<Rightarrow> bool \<Rightarrow> bool \<Rightarrow> bool" where
  "prefetch_effect li n hasNext pend =
     (if li = - 1 \<or> n = 0 \<or> \<not> hasNext \<or> pend then False
      else
        (let overscan = 4 * GIF_WATERFALL_COLUMNS
         in if li + overscan \<ge> int n - 1 then True else False))"

text \<open>
  The state \<open>useInfiniteQuery\<close> hands to the panel, as the panel reads it: the pages,
  \<open>pending\<close>, \<open>rejected\<close> and \<open>hasNextPage\<close>. \<open>items\<close> is \<open>queryState.pages.flatMap(page => page.gifs)\<close>.
\<close>

record QueryState =
  query :: GifsQuery
  pages :: "GifsPaginated list"
  pending :: bool
  rejected :: bool
  hasNextPage :: bool

definition items :: "QueryState \<Rightarrow> GifType list" where
  "items qs = concat (map gifs (pages qs))"

text \<open>
  Modelled from the spec: \<open>useInfiniteQuery\<close> (\<open>../data/infinite\<close>) is not among the sources.
  The spec's \<open>fetchNextPage()\<close>: a no-op if a load is already in flight or no next
  cursor exists; otherwise it starts a load, which is in flight (\<open>pending\<close>) until its
  page arrives.
\<close>

definition fetchNextPage :: "QueryState \<Rightarrow> QueryState" where
  "fetchNextPage qs = (if pending qs \<or> \<not> hasNextPage qs then qs else qs \<lparr> pending := True \<rparr>)"

text \<open>
  The effect run after every render in which the visible range has changed, for a
  sequence of visible ranges and no page arriving in between: the number of calls of
  \<open>fetchNextPage()\<close> the effect makes, and the query state after them.
\<close>

fun scroll :: "QueryState \<Rightarrow> VisibleRange option list \<Rightarrow> nat \<times> QueryState" where
  "scroll qs [] = (0, qs)"
| "scroll qs (r # rs) =
     (if prefetch_effect (lastIndex r) (length (items qs)) (hasNextPage qs) (pending qs)
      then (case scroll (fetchNextPage qs) rs of (k, qs') \<Rightarrow> (Suc k, qs'))
      else scroll qs rs)"

section \<open>The roving tab index (lines 498-518, 604-608)\<close>

text \<open>
  A virtual item of the virtualizer, as the panel reads it: \<open>index\<close>, \<open>key\<close> (the id of
  the gif at that index, through \<open>getItemKey\<close>), \<open>lane\<close>, \<open>start\<close> and \<open>size\<close>.
\<close>

record VirtualItem =
  index :: int
  key :: string
  lane :: nat
  start :: nat
  vsize :: nat

definition isTabbable :: "string option \<Rightarrow> VirtualItem \<Rightarrow> bool" where
  "isTabbable selectedItemKey item =
     (case selectedItemKey of
        Some k \<Rightarrow> key item = k
      | None \<Rightarrow> index item = 0)"

text \<open>\<open>tabIndex={props.isTabbable ? 0 : -1}\<close>\<close>

definition tabIndex :: "bool \<Rightarrow> int" where
  "tabIndex tabbable = (if tabbable then 0 else - 1)"

text \<open>The tab indexes of the items the panel renders, in the order of \<open>getVirtualItems()\<close>.\<close>

definition rendered_tabIndexes :: "string option \<Rightarrow> VirtualItem list \<Rightarrow> int list" where
  "rendered_tabIndexes selectedItemKey virtualItems =
     map (\<lambda>item. tabIndex (isTabbable selectedItemKey item)) virtualItems"

section \<open>The download effect of an item (lines 555-594)\<close>

text \<open>
  What \<open>await fetchGif(url, signal)\<close> does: it yields the bytes or throws. The errors are
  of any type; \<open>isAbortError\<close> (\<open>../../../util/isAbortError\<close>) is a parameter.
\<close>

datatype 'e fetch_outcome =
    Fulfilled bytes
  | Thrown 'e

text \<open>The object URL of a blob (\<open>URL.createObjectURL(blob)\<close>).\<close>

datatype ObjectURL = ObjectURL Blob

text \<open>
  What the effect can change: the caches, the item's \<open>src\<close> state and the error log
  (\<open>log.error(message, Errors.toLogFormat(error))\<close> appends the message and the error).
\<close>

record 'e item_world =
  caches :: gif_caches
  src :: "ObjectURL option"
  errors :: "(string \<times> 'e) list"

definition download :: "('e \<Rightarrow> bool) \<Rightarrow> GifType \<Rightarrow> 'e fetch_outcome \<Rightarrow> 'e item_world \<Rightarrow> 'e item_world" where
  "download isAbortError gif outcome w =
     (case outcome of
        Fulfilled bs \<Rightarrow>
          (let blob = Blob bs
           in w \<lparr> caches := saveGifMediaToCache (caches w) (previewMedia gif) blob,
                 src := Some (ObjectURL blob) \<rparr>)
      | Thrown error \<Rightarrow>
          (if \<not> isAbortError error
           then w \<lparr> errors := errors w @ [(''Failed to download gif'', error)] \<rparr>
           else w))"

text \<open>The effect returns at once when the item has a \<open>src\<close>; otherwise it downloads.\<close>

definition download_effect :: "('e \<Rightarrow> bool) \<Rightarrow> GifType \<Rightarrow> 'e fetch_outcome \<Rightarrow> 'e item_world \<Rightarrow> 'e item_world" where
  "download_effect isAbortError gif outcome w =
     (if src w \<noteq> None then w else download isAbortError gif outcome w)"

text \<open>\<open>{src != null && <FunGif ... />}\<close>: the item shows a thumbnail when it has a \<open>src\<close>.\<close>

definition renders_thumbnail :: "'e item_world \<Rightarrow> bool" where
  "renders_thumbnail w = (src w \<noteq> None)"

section \<open>The debounced query (lines 141-188)\<close>

text \<open>
  \<open>searchInput.trim()\<close> is \<open>String.prototype.trim\<close>, a built-in of the language: it is the
  parameter \<open>trim\<close> of every definition below, and the theorems hold for every function
  in its place.
\<close>

text \<open>
  The body of the effect of lines 163-188, given \<open>debouncedQuery\<close>, \<open>searchQuery\<close> and
  \<open>selectedGifsSection\<close>: it returns without doing anything, or calls
  \<open>setDebouncedQuery(query)\<close> at once, or starts a timer that will call it after the
  delay, and returns the cleanup that clears this timer.
\<close>

datatype effect_result =
    Unchanged
  | SetNow GifsQuery
  | SetAfter nat GifsQuery

definition debounce_effect :: "GifsQuery \<Rightarrow> string \<Rightarrow> FunGifsSection \<Rightarrow> effect_result" where
  "debounce_effect debounced text sec =
     (if searchQuery debounced = text \<and> selectedSection debounced = sec then Unchanged
      else
        (let q = \<lparr> selectedSection = sec, searchQuery = text \<rparr>
         in if text = '''' then SetNow q else SetAfter 500 q))"

text \<open>
  The state of the panel that the effect reads and writes: the two props
  \<open>searchInput\<close> and \<open>selectedGifsSection\<close>, the state \<open>debouncedQuery\<close> (the query handed
  to \<open>useInfiniteQuery\<close>, which loads it), and the pending timer, if any, with the
  milliseconds left and the query its callback will set. \<open>sinceChange\<close> is not a
  variable of the program: it counts the milliseconds since the requested query
  (trimmed search text and section) last changed, so that theorems can speak of them.
\<close>

record panel =
  searchInput :: string
  selectedGifsSection :: FunGifsSection
  debouncedQuery :: GifsQuery
  timeout :: "(nat \<times> GifsQuery) option"
  sinceChange :: nat

text \<open>The query the props ask for: \<open>{ selectedSection: selectedGifsSection, searchQuery }\<close>.\<close>

definition requested :: "(string \<Rightarrow> string) \<Rightarrow> panel \<Rightarrow> GifsQuery" where
  "requested trim p =
     \<lparr> selectedSection = selectedGifsSection p, searchQuery = trim (searchInput p) \<rparr>"

text \<open>
  One run of the effect after a render in which one of its dependencies
  (\<open>debouncedQuery\<close>, \<open>searchQuery\<close>, \<open>selectedGifsSection\<close>) has changed: the cleanup of the
  previous run clears its timer, then the body runs. The flag says whether the body
  has set \<open>debouncedQuery\<close>.
\<close>

definition run_effect :: "(string \<Rightarrow> string) \<Rightarrow> panel \<Rightarrow> panel \<times> bool" where
  "run_effect trim p =
     (case debounce_effect (debouncedQuery p) (trim (searchInput p)) (selectedGifsSection p) of
        Unchanged \<Rightarrow> (p \<lparr> timeout := None \<rparr>, False)
      | SetNow q \<Rightarrow> (p \<lparr> debouncedQuery := q, timeout := None \<rparr>, True)
      | SetAfter ms q \<Rightarrow> (p \<lparr> timeout := Some (ms, q) \<rparr>, False))"

text \<open>
  Setting \<open>debouncedQuery\<close> renders the panel again, and the effect, which depends on
  it, runs once more.
\<close>

definition rerender :: "(string \<Rightarrow> string) \<Rightarrow> panel \<Rightarrow> panel" where
  "rerender trim p =
     (case run_effect trim p of
        (p', changed) \<Rightarrow> if changed then fst (run_effect trim p') else p')"

text \<open>
  What happens to the panel: its props change (the user edits the search text or picks
  a section), or a millisecond passes. The effect depends on the trimmed text, not on
  the text: a change of the props that leaves the trimmed text and the section as
  they were does not run the effect, and a pending timer goes on. A timer that has
  run out calls \<open>setDebouncedQuery\<close> with the query it was started with.
\<close>

datatype event =
    Change string FunGifsSection
  | Tick

fun step :: "(string \<Rightarrow> string) \<Rightarrow> panel \<Rightarrow> event \<Rightarrow> panel" where
  "step trim p (Change inp sec) =
     (if trim inp = trim (searchInput p) \<and> sec = selectedGifsSection p
      then p \<lparr> searchInput := inp \<rparr>
      else rerender trim (p \<lparr> searchInput := inp, selectedGifsSection := sec, sinceChange := 0 \<rparr>))"
| "step trim p Tick =
     (case timeout p of
        None \<Rightarrow> p \<lparr> sinceChange := Suc (sinceChange p) \<rparr>
      | Some (ms, q) \<Rightarrow>
          (if ms \<le> 1
           then rerender trim
                  (p \<lparr> debouncedQuery := q, timeout := None, sinceChange := Suc (sinceChange p) \<rparr>)
           else p \<lparr> timeout := Some (ms - 1, q), sinceChange := Suc (sinceChange p) \<rparr>))"

definition panel_run :: "(string \<Rightarrow> string) \<Rightarrow> panel \<Rightarrow> event list \<Rightarrow> panel" where
  "panel_run trim p es = foldl (step trim) p es"

text \<open>
  The panel as it mounts: \<open>useState\<close> starts \<open>debouncedQuery\<close> at the query the props ask
  for, and no timer runs.
\<close>

definition mount :: "(string \<Rightarrow> string) \<Rightarrow> string \<Rightarrow> FunGifsSection \<Rightarrow> panel" where
  "mount trim inp sec =
     \<lparr> searchInput = inp, selectedGifsSection = sec,
       debouncedQuery = \<lparr> selectedSection = sec, searchQuery = trim inp \<rparr>,
       timeout = None, sinceChange = 0 \<rparr>"

text \<open>
  \<open>handleSearchInputChange\<close> (lines 144-156): typing switches the section to the search
  results, clearing the text switches it to the recents when there are any and to
  trending otherwise; both props change in the same event.
\<close>

definition handleSearchInputChange :: "(string \<Rightarrow> string) \<Rightarrow> GifType list \<Rightarrow> string \<Rightarrow> event" where
  "handleSearchInputChange trim recentGifs nextSearchInput =
     Change nextSearchInput
       (if trim nextSearchInput \<noteq> '''' then SearchResults
        else if length recentGifs > 0 then Recents
        else Trending)"

text \<open>What holds of the panel between events.\<close>

definition settled :: "(string \<Rightarrow> string) \<Rightarrow> panel \<Rightarrow> bool" where
  "settled trim p =
     (case timeout p of
        None \<Rightarrow> debouncedQuery p = requested trim p
      | Some (ms, q) \<Rightarrow>
          q = requested trim p \<and> searchQuery q \<noteq> '''' \<and> debouncedQuery p \<noteq> q
          \<and> 0 < ms \<and> ms + sinceChange p = 500)"

text \<open>
  For the examples, which type ASCII text: on ASCII text \<open>String.prototype.trim\<close> takes
  tab, line feed, vertical tab, form feed, carriage return and space off both ends.
\<close>

definition is_ascii_whitespace :: "char \<Rightarrow> bool" where
  "is_ascii_whitespace c =
     (c \<in> set [CHR 0x09, CHR 0x0A, CHR 0x0B, CHR 0x0C, CHR 0x0D, CHR 0x20])"

definition trim_ascii :: "string \<Rightarrow> string" where
  "trim_ascii s = rev (dropWhile is_ascii_whitespace (rev (dropWhile is_ascii_whitespace s)))"

section \<open>Theorems about the loader\<close>

text \<open>
  C2. With an empty search text: the recents section resolves at once from the recents
  list the panel holds, with a null next cursor and no fetch; the trending section calls
  the featured fetch; each of the seven mood categories calls the search fetch with its
  own term; and the loader throws, instead of returning a page or a fetch, exactly for
  the sections outside this list (the search-results section fails the assertion, any
  other value is a missing case).
\<close>

theorem loader_empty_search_dispatch:
  "loader rg \<lparr> selectedSection = Recents, searchQuery = '''' \<rparr> prev sg
      = Inr (Resolved \<lparr> nextc = None, gifs = rg \<rparr>)
   \<and> loader rg \<lparr> selectedSection = Trending, searchQuery = '''' \<rparr> prev sg
      = Inr (FetchGifsFeatured (page_limit (page_cursor prev)) (page_cursor prev) sg)
   \<and> loader rg \<lparr> selectedSection = Celebrate, searchQuery = '''' \<rparr> prev sg
      = Inr (FetchGifsSearch ''celebrate'' (page_limit (page_cursor prev)) (page_cursor prev) sg)
   \<and> loader rg \<lparr> selectedSection = Love, searchQuery = '''' \<rparr> prev sg
      = Inr (FetchGifsSearch ''love'' (page_limit (page_cursor prev)) (page_cursor prev) sg)
   \<and> loader rg \<lparr> selectedSection = ThumbsUp, searchQuery = '''' \<rparr> prev sg
      = Inr (FetchGifsSearch ''thumbs-up'' (page_limit (page_cursor prev)) (page_cursor prev) sg)
   \<and> loader rg \<lparr> selectedSection = Surprised, searchQuery = '''' \<rparr> prev sg
      = Inr (FetchGifsSearch ''surprised'' (page_limit (page_cursor prev)) (page_cursor prev) sg)
   \<and> loader rg \<lparr> selectedSection = Excited, searchQuery = '''' \<rparr> prev sg
      = Inr (FetchGifsSearch ''excited'' (page_limit (page_cursor prev)) (page_cursor prev) sg)
   \<and> loader rg \<lparr> selectedSection = Sad, searchQuery = '''' \<rparr> prev sg
      = Inr (FetchGifsSearch ''sad'' (page_limit (page_cursor prev)) (page_cursor prev) sg)
   \<and> loader rg \<lparr> selectedSection = Angry, searchQuery = '''' \<rparr> prev sg
      = Inr (FetchGifsSearch ''angry'' (page_limit (page_cursor prev)) (page_cursor prev) sg)
   \<and> loader rg \<lparr> selectedSection = SearchResults, searchQuery = '''' \<rparr> prev sg
      = Inl (AssertionFailure ''Section is search results when not searching'')
   \<and> loader rg \<lparr> selectedSection = Unlisted s, searchQuery = '''' \<rparr> prev sg
      = Inl (MissingCase (Unlisted s))
   \<and> (\<forall>sec. isl (loader rg \<lparr> selectedSection = sec, searchQuery = '''' \<rparr> prev sg)
          = (sec \<notin> set dispatched_sections))"
proof -
  have "isl (loader rg \<lparr> selectedSection = sec, searchQuery = '''' \<rparr> prev sg)
          = (sec \<notin> set dispatched_sections)" for sec
    by (cases sec) (simp_all add: loader_def dispatched_sections_def Let_def)
  then show ?thesis
    by (simp add: loader_def Let_def)
qed

text \<open>
  C7. Every fetch the loader issues carries the cursor of the previous page and a limit
  of 10 when that cursor is null (no previous page, or a previous page without a next
  cursor) and of 30 when there is a cursor.
\<close>

theorem loader_page_limit:
  assumes "loader rg q prev sg = Inr (FetchGifsSearch t l c sg')
           \<or> loader rg q prev sg = Inr (FetchGifsFeatured l c sg')"
  shows "c = page_cursor prev \<and> l = (if c = None then 10 else 30)"
  using assms
  by (auto simp: loader_def Let_def page_limit_def split: if_splits)

theorem loader_page_limit_witness:
  "loader [] \<lparr> selectedSection = Trending, searchQuery = '''' \<rparr> None 0
      = Inr (FetchGifsFeatured 10 None 0)
   \<and> loader [] \<lparr> selectedSection = Trending, searchQuery = '''' \<rparr>
        (Some \<lparr> nextc = Some ''c1'', gifs = [] \<rparr>) 0
      = Inr (FetchGifsFeatured 30 (Some ''c1'') 0)
   \<and> (10::nat) = (if (None :: string option) = None then 10 else 30)
   \<and> (30::nat) = (if Some ''c1'' = None then 10 else 30)"
proof -
  have a: "loader [] \<lparr> selectedSection = Trending, searchQuery = '''' \<rparr> None 0
      = Inr (FetchGifsFeatured 10 None 0)"
    by (simp add: loader_def Let_def page_limit_def page_cursor_def)
  have b: "loader [] \<lparr> selectedSection = Trending, searchQuery = '''' \<rparr>
        (Some \<lparr> nextc = Some ''c1'', gifs = [] \<rparr>) 0
      = Inr (FetchGifsFeatured 30 (Some ''c1'') 0)"
    by (simp add: loader_def Let_def page_limit_def page_cursor_def)
  from loader_page_limit [OF disjI2, OF a] loader_page_limit [OF disjI2, OF b] a b
  show ?thesis by simp
qed

text \<open>
  C10. With a non-empty search text the loader calls the search fetch with that text,
  whatever the selected section is: the result does not depend on the section, and the
  table of sections is reached only with an empty search text.
\<close>

theorem loader_search_text_first:
  assumes "searchQuery q \<noteq> ''''"
  shows "loader rg q prev sg
           = Inr (FetchGifsSearch (searchQuery q) (page_limit (page_cursor prev)) (page_cursor prev) sg)
         \<and> loader rg (q \<lparr> selectedSection := sec \<rparr>) prev sg = loader rg q prev sg"
  using assms by (simp add: loader_def Let_def)

theorem loader_search_text_first_witness:
  "loader [] \<lparr> selectedSection = Recents, searchQuery = ''cats'' \<rparr> None 7
      = Inr (FetchGifsSearch ''cats'' 10 None 7)
   \<and> loader [] \<lparr> selectedSection = Unlisted ''x'', searchQuery = ''cats'' \<rparr> None 7
      = Inr (FetchGifsSearch ''cats'' 10 None 7)"
  using loader_search_text_first
    [of "\<lparr> selectedSection = Recents, searchQuery = ''cats'' \<rparr>" "[]" None 7 "Unlisted ''x''"]
  by (simp add: page_limit_def page_cursor_def)


section \<open>Theorems about the waterfall\<close>

text \<open>
  C6. Whatever indexes the default extractor proposes for the visible range, and
  whatever the number of items, the list the panel's range extractor returns contains
  index 0 and the last index, \<open>count - 1\<close>; in particular for every non-empty list of
  items.
\<close>

theorem rangeExtractor_first_and_last:
  "0 \<in> set (rangeExtractor d n r) \<and> int n - 1 \<in> set (rangeExtractor d n r)"
  by (simp add: rangeExtractor_def Let_def)

lemma scroll_pending: "pending qs \<Longrightarrow> scroll qs rs = (0, qs)"
  by (induction rs) (simp_all add: prefetch_effect_def)

lemma scroll_at_most_once: "fst (scroll qs rs) \<le> 1"
proof (induction rs)
  case Nil
  then show ?case by simp
next
  case (Cons r rs)
  show ?case
  proof (cases "prefetch_effect (lastIndex r) (length (items qs)) (hasNextPage qs) (pending qs)")
    case True
    then have "pending (fetchNextPage qs)"
      by (auto simp: prefetch_effect_def fetchNextPage_def split: if_splits)
    then have "scroll (fetchNextPage qs) rs = (0, fetchNextPage qs)"
      by (rule scroll_pending)
    with True show ?thesis by simp
  next
    case False
    with Cons show ?thesis by simp
  qed
qed

text \<open>
  C5. With at least one item and a visible range ending at \<open>endIndex\<close>, the effect calls
  \<open>fetchNextPage()\<close> exactly when \<open>endIndex + 8 \<ge> count - 1\<close>, there is a next page and no
  load is pending; without a visible range it does not call it. For 40 items this is
  from \<open>endIndex = 31\<close> on. Over any sequence of visible ranges with no page arriving in
  between, the effect calls \<open>fetchNextPage()\<close> at most once (the load it starts is
  pending, by the spec's \<open>fetchNextPage\<close>), and not at all while a load is pending.
\<close>

theorem prefetch_trigger:
  "(0 < n \<and> 0 \<le> endIndex r \<longrightarrow>
      prefetch_effect (lastIndex (Some r)) n hasNext pend
        = (int n - 1 \<le> endIndex r + 8 \<and> hasNext \<and> \<not> pend))
   \<and> \<not> prefetch_effect (lastIndex None) n hasNext pend
   \<and> (0 \<le> endIndex r \<longrightarrow>
        prefetch_effect (lastIndex (Some r)) 40 hasNext pend
          = (31 \<le> endIndex r \<and> hasNext \<and> \<not> pend))
   \<and> fst (scroll qs rs) \<le> 1
   \<and> (pending qs \<longrightarrow> fst (scroll qs rs) = 0)"
proof -
  have a: "0 < n \<and> 0 \<le> endIndex r \<longrightarrow>
      prefetch_effect (lastIndex (Some r)) n hasNext pend
        = (int n - 1 \<le> endIndex r + 8 \<and> hasNext \<and> \<not> pend)"
    by (auto simp: prefetch_effect_def lastIndex_def GIF_WATERFALL_COLUMNS_def Let_def)
  have b: "\<not> prefetch_effect (lastIndex None) n hasNext pend"
    by (simp add: prefetch_effect_def lastIndex_def)
  have c: "0 \<le> endIndex r \<longrightarrow>
        prefetch_effect (lastIndex (Some r)) 40 hasNext pend
          = (31 \<le> endIndex r \<and> hasNext \<and> \<not> pend)"
    by (auto simp: prefetch_effect_def lastIndex_def GIF_WATERFALL_COLUMNS_def Let_def)
  have d: "pending qs \<longrightarrow> fst (scroll qs rs) = 0"
    by (simp add: scroll_pending)
  from a b c d scroll_at_most_once show ?thesis by blast
qed

theorem prefetch_trigger_witness:
  "prefetch_effect (lastIndex (Some \<lparr> startIndex = 20, endIndex = 31 \<rparr>)) 40 True False
   \<and> \<not> prefetch_effect (lastIndex (Some \<lparr> startIndex = 20, endIndex = 30 \<rparr>)) 40 True False
   \<and> \<not> prefetch_effect (lastIndex (Some \<lparr> startIndex = 20, endIndex = 31 \<rparr>)) 40 True True
   \<and> fst (scroll
        \<lparr> query = \<lparr> selectedSection = Trending, searchQuery = '''' \<rparr>,
          pages = [\<lparr> nextc = Some ''c1'', gifs = [] \<rparr>],
          pending = True, rejected = False, hasNextPage = True \<rparr>
        [Some \<lparr> startIndex = 20, endIndex = 31 \<rparr>]) = 0
   \<and> fst (scroll
        \<lparr> query = \<lparr> selectedSection = Trending, searchQuery = '''' \<rparr>,
          pages = [\<lparr> nextc = Some ''c1'', gifs = replicate 40
            \<lparr> gif_id = ''g1'', title = ''cat'', description = ''a cat'',
              previewMedia = \<lparr> oid = 1, url = ''u1'', width = 160, height = 120 \<rparr>,
              attachmentMedia = \<lparr> oid = 2, url = ''u2'', width = 640, height = 480 \<rparr> \<rparr> \<rparr>],
          pending = False, rejected = False, hasNextPage = True \<rparr>
        [Some \<lparr> startIndex = 18, endIndex = 30 \<rparr>, Some \<lparr> startIndex = 20, endIndex = 31 \<rparr>,
         Some \<lparr> startIndex = 22, endIndex = 33 \<rparr>]) = 1"
proof -
  have once: "fst (scroll
        \<lparr> query = \<lparr> selectedSection = Trending, searchQuery = [] \<rparr>,
          pages = [\<lparr> nextc = Some ''c1'', gifs = replicate 40
            \<lparr> gif_id = ''g1'', title = ''cat'', description = ''a cat'',
              previewMedia = \<lparr> oid = 1, url = ''u1'', width = 160, height = 120 \<rparr>,
              attachmentMedia = \<lparr> oid = 2, url = ''u2'', width = 640, height = 480 \<rparr> \<rparr> \<rparr>],
          pending = False, rejected = False, hasNextPage = True \<rparr>
        [Some \<lparr> startIndex = 18, endIndex = 30 \<rparr>, Some \<lparr> startIndex = 20, endIndex = 31 \<rparr>,
         Some \<lparr> startIndex = 22, endIndex = 33 \<rparr>]) = 1"
    by (simp add: items_def fetchNextPage_def prefetch_effect_def lastIndex_def
        GIF_WATERFALL_COLUMNS_def)
  from
    prefetch_trigger [of 40 "\<lparr> startIndex = 20, endIndex = 31 \<rparr>" True False
      "\<lparr> query = \<lparr> selectedSection = Trending, searchQuery = [] \<rparr>,
         pages = [\<lparr> nextc = Some ''c1'', gifs = [] \<rparr>],
         pending = True, rejected = False, hasNextPage = True \<rparr>"
      "[Some \<lparr> startIndex = 20, endIndex = 31 \<rparr>]"]
    prefetch_trigger [of 40 "\<lparr> startIndex = 20, endIndex = 30 \<rparr>" True False]
    prefetch_trigger [of 40 "\<lparr> startIndex = 20, endIndex = 31 \<rparr>" True True]
    once
  show ?thesis by simp
qed

section \<open>Theorems about the roving tab index\<close>

lemma one_hit:
  "distinct (map f xs) \<Longrightarrow> a \<in> f ` set xs \<Longrightarrow>
   \<exists>i<length xs. f (xs ! i) = a
     \<and> map (\<lambda>x. if f x = a then (0::int) else - 1) xs = (replicate (length xs) (- 1)) [i := 0]"
proof (induction xs)
  case Nil
  then show ?case by simp
next
  case (Cons x xs)
  show ?case
  proof (cases "f x = a")
    case True
    from Cons.prems(1) have "f x \<notin> f ` set xs" by simp
    with True have "\<forall>y\<in>set xs. f y \<noteq> a" by blast
    then have "map (\<lambda>x. if f x = a then (0::int) else - 1) xs = replicate (length xs) (- 1)"
      by (induction xs) auto
    with True show ?thesis by (intro exI [of _ 0]) simp
  next
    case False
    with Cons.prems have "a \<in> f ` set xs" "distinct (map f xs)" by auto
    with Cons.IH obtain i where "i < length xs" "f (xs ! i) = a"
      "map (\<lambda>x. if f x = a then (0::int) else - 1) xs = (replicate (length xs) (- 1)) [i := 0]"
      by blast
    with False show ?thesis by (intro exI [of _ "Suc i"]) simp
  qed
qed

text \<open>
  C9, as the claim states it, fails: the selected key is set by the keyboard and never
  reset, and the panel renders only the items of the visible range (with the first
  and the last one). When the item with the selected key is not among the rendered
  items (it has scrolled out, or the query has changed), no rendered item is tabbable.
\<close>

theorem tabbable_stale_key_counterexample:
  "rendered_tabIndexes (Some ''g9'')
     [\<lparr> index = 0, key = ''g1'', lane = 0, start = 0, vsize = 100 \<rparr>,
      \<lparr> index = 1, key = ''g2'', lane = 1, start = 0, vsize = 120 \<rparr>] = [- 1, - 1]
   \<and> count_list (rendered_tabIndexes (Some ''g9'')
     [\<lparr> index = 0, key = ''g1'', lane = 0, start = 0, vsize = 100 \<rparr>,
      \<lparr> index = 1, key = ''g2'', lane = 1, start = 0, vsize = 120 \<rparr>]) 0 \<noteq> 1"
  by (simp add: rendered_tabIndexes_def isTabbable_def tabIndex_def)

text \<open>
  C9, amended. When the rendered items have distinct keys and distinct indexes, and
  the item with the selected key is among them (or no key is selected yet and the item
  at index 0 is among them), exactly one rendered item has tab index 0 and every other
  one has tab index -1; the one is the item with the selected key, or the item at
  index 0 when no key is selected.
\<close>

theorem tabbable_exactly_one:
  assumes "distinct (map key vis)" and "distinct (map index vis)"
    and "case sel of None \<Rightarrow> 0 \<in> index ` set vis | Some k \<Rightarrow> k \<in> key ` set vis"
  shows "\<exists>i<length vis.
           rendered_tabIndexes sel vis = (replicate (length vis) (- 1)) [i := 0]
           \<and> (case sel of None \<Rightarrow> index (vis ! i) = 0 | Some k \<Rightarrow> key (vis ! i) = k)"
proof (cases sel)
  case None
  with assms one_hit [of index vis 0] show ?thesis
    by (auto simp: rendered_tabIndexes_def isTabbable_def tabIndex_def)
next
  case (Some k)
  with assms one_hit [of key vis k] show ?thesis
    by (auto simp: rendered_tabIndexes_def isTabbable_def tabIndex_def)
qed

theorem tabbable_exactly_one_witness:
  "distinct (map key
       [\<lparr> index = 0, key = ''g1'', lane = 0, start = 0, vsize = 100 \<rparr>,
        \<lparr> index = 1, key = ''g2'', lane = 1, start = 0, vsize = 120 \<rparr>])
   \<and> ''g2'' \<in> key ` set
       [\<lparr> index = 0, key = ''g1'', lane = 0, start = 0, vsize = 100 \<rparr>,
        \<lparr> index = 1, key = ''g2'', lane = 1, start = 0, vsize = 120 \<rparr>]
   \<and> rendered_tabIndexes (Some ''g2'')
       [\<lparr> index = 0, key = ''g1'', lane = 0, start = 0, vsize = 100 \<rparr>,
        \<lparr> index = 1, key = ''g2'', lane = 1, start = 0, vsize = 120 \<rparr>] = [- 1, 0]
   \<and> rendered_tabIndexes None
       [\<lparr> index = 0, key = ''g1'', lane = 0, start = 0, vsize = 100 \<rparr>,
        \<lparr> index = 1, key = ''g2'', lane = 1, start = 0, vsize = 120 \<rparr>] = [0, - 1]"
  using
    tabbable_exactly_one [of
      "[\<lparr> index = 0, key = ''g1'', lane = 0, start = 0, vsize = 100 \<rparr>,
        \<lparr> index = 1, key = ''g2'', lane = 1, start = 0, vsize = 120 \<rparr>]" "Some ''g2''"]
    tabbable_exactly_one [of
      "[\<lparr> index = 0, key = ''g1'', lane = 0, start = 0, vsize = 100 \<rparr>,
        \<lparr> index = 1, key = ''g2'', lane = 1, start = 0, vsize = 120 \<rparr>]" None]
  by (simp add: rendered_tabIndexes_def isTabbable_def tabIndex_def)

section \<open>Theorems about the download of an item\<close>

text \<open>
  C8. When the fetch of an item's media throws an abort error (the item has unmounted
  and its cleanup has aborted the fetch), the effect changes nothing: no cache is
  written and nothing is logged. When the fetch throws any other error, the error
  is logged, the caches are as they were, and the item, which had no \<open>src\<close>, still has
  none and renders without a thumbnail; the error goes no further than the item.
\<close>

theorem download_failure:
  "(isAbortError e \<longrightarrow> download_effect isAbortError gif (Thrown e) w = w)
   \<and> (\<not> isAbortError e \<and> src w = None \<longrightarrow>
        caches (download_effect isAbortError gif (Thrown e) w) = caches w
        \<and> errors (download_effect isAbortError gif (Thrown e) w)
            = errors w @ [(''Failed to download gif'', e)]
        \<and> \<not> renders_thumbnail (download_effect isAbortError gif (Thrown e) w))"
  by (simp add: download_effect_def download_def renders_thumbnail_def)

theorem download_failure_witness:
  "download_effect (\<lambda>e. e = ''AbortError'')
        \<lparr> gif_id = ''g1'', title = ''cat'', description = ''a cat'',
           previewMedia = \<lparr> oid = 1, url = ''https://media.example/g1-tiny.mp4'', width = 160, height = 120 \<rparr>,
           attachmentMedia = \<lparr> oid = 2, url = ''https://media.example/g1.mp4'', width = 640, height = 480 \<rparr> \<rparr> (Thrown ''AbortError'')
      \<lparr> caches = initial_caches, src = None, errors = [] \<rparr>
     = \<lparr> caches = initial_caches, src = None, errors = [] \<rparr>
   \<and> caches (download_effect (\<lambda>e. e = ''AbortError'')
        \<lparr> gif_id = ''g1'', title = ''cat'', description = ''a cat'',
           previewMedia = \<lparr> oid = 1, url = ''https://media.example/g1-tiny.mp4'', width = 160, height = 120 \<rparr>,
           attachmentMedia = \<lparr> oid = 2, url = ''https://media.example/g1.mp4'', width = 640, height = 480 \<rparr> \<rparr> (Thrown ''TypeError'')
        \<lparr> caches = initial_caches, src = None, errors = [] \<rparr>) = initial_caches
   \<and> errors (download_effect (\<lambda>e. e = ''AbortError'')
        \<lparr> gif_id = ''g1'', title = ''cat'', description = ''a cat'',
           previewMedia = \<lparr> oid = 1, url = ''https://media.example/g1-tiny.mp4'', width = 160, height = 120 \<rparr>,
           attachmentMedia = \<lparr> oid = 2, url = ''https://media.example/g1.mp4'', width = 640, height = 480 \<rparr> \<rparr> (Thrown ''TypeError'')
        \<lparr> caches = initial_caches, src = None, errors = [] \<rparr>)
        = [(''Failed to download gif'', ''TypeError'')]
   \<and> \<not> renders_thumbnail (download_effect (\<lambda>e. e = ''AbortError'')
        \<lparr> gif_id = ''g1'', title = ''cat'', description = ''a cat'',
           previewMedia = \<lparr> oid = 1, url = ''https://media.example/g1-tiny.mp4'', width = 160, height = 120 \<rparr>,
           attachmentMedia = \<lparr> oid = 2, url = ''https://media.example/g1.mp4'', width = 640, height = 480 \<rparr> \<rparr> (Thrown ''TypeError'')
        \<lparr> caches = initial_caches, src = None, errors = [] \<rparr>)"
  using
    download_failure [of "\<lambda>e. e = ''AbortError''" "''AbortError''"
      "\<lparr> gif_id = ''g1'', title = ''cat'', description = ''a cat'',
           previewMedia = \<lparr> oid = 1, url = ''https://media.example/g1-tiny.mp4'', width = 160, height = 120 \<rparr>,
           attachmentMedia = \<lparr> oid = 2, url = ''https://media.example/g1.mp4'', width = 640, height = 480 \<rparr> \<rparr>"
      "\<lparr> caches = initial_caches, src = None, errors = [] \<rparr>"]
    download_failure [of "\<lambda>e. e = ''AbortError''" "''TypeError''"
      "\<lparr> gif_id = ''g1'', title = ''cat'', description = ''a cat'',
           previewMedia = \<lparr> oid = 1, url = ''https://media.example/g1-tiny.mp4'', width = 160, height = 120 \<rparr>,
           attachmentMedia = \<lparr> oid = 2, url = ''https://media.example/g1.mp4'', width = 640, height = 480 \<rparr> \<rparr>"
      "\<lparr> caches = initial_caches, src = None, errors = [] \<rparr>"]
  by simp


section \<open>Theorems about the blob cache\<close>


lemma calculatedSize_Cons: "calculatedSize (e # es) = blob_size (snd e) + calculatedSize es"
  by (simp add: calculatedSize_def)

lemma calculatedSize_append: "calculatedSize (xs @ ys) = calculatedSize xs + calculatedSize ys"
  by (simp add: calculatedSize_def)

lemma calculatedSize_Nil: "calculatedSize [] = 0"
  by (simp add: calculatedSize_def)

lemma evict_drop:
  "\<exists>n. evict budget es = drop n es
       \<and> calculatedSize (drop n es) \<le> budget
       \<and> (\<forall>m<n. budget < calculatedSize (drop m es))"
proof (induction es)
  case Nil
  show ?case by (intro exI [of _ 0]) (simp add: calculatedSize_Nil)
next
  case (Cons e es)
  show ?case
  proof (cases "calculatedSize (e # es) \<le> budget")
    case True
    then show ?thesis by (intro exI [of _ 0]) simp
  next
    case False
    from Cons.IH obtain n where n: "evict budget es = drop n es"
      "calculatedSize (drop n es) \<le> budget" "\<forall>m<n. budget < calculatedSize (drop m es)"
      by blast
    have "\<forall>m<Suc n. budget < calculatedSize (drop m (e # es))"
    proof (intro allI impI)
      fix m assume "m < Suc n"
      then show "budget < calculatedSize (drop m (e # es))"
        using False n(3) by (cases m) auto
    qed
    with False n(1,2) show ?thesis by (intro exI [of _ "Suc n"]) simp
  qed
qed

lemma calculatedSize_evict: "calculatedSize (evict budget es) \<le> budget"
  using evict_drop [of budget es] by auto

lemma set_evict: "set (evict budget es) \<subseteq> set es"
  using evict_drop [of budget es] by (auto dest: in_set_dropD)

lemma calculatedSize_delete_le: "calculatedSize (lru_delete k es) \<le> calculatedSize es"
  by (induction es) (auto simp: lru_delete_def calculatedSize_Cons calculatedSize_Nil)

lemma calculatedSize_delete_member:
  "(k, b) \<in> set es \<Longrightarrow> calculatedSize (lru_delete k es) + blob_size b \<le> calculatedSize es"
proof (induction es)
  case Nil
  then show ?case by simp
next
  case (Cons e es)
  show ?case
  proof (cases "e = (k, b)")
    case True
    have "calculatedSize (lru_delete k es) \<le> calculatedSize es"
      by (rule calculatedSize_delete_le)
    with True show ?thesis by (simp add: lru_delete_def calculatedSize_Cons)
  next
    case False
    with Cons.prems have "(k, b) \<in> set es" by simp
    from Cons.IH [OF this] show ?thesis
      by (simp add: lru_delete_def calculatedSize_Cons)
  qed
qed

lemma maxSize_lru_set: "maxSize (lru_set c k b) = maxSize c"
  by (simp add: lru_set_def)

lemma maxSize_lru_get: "maxSize (snd (lru_get c k)) = maxSize c"
  by (simp add: lru_get_def split: option.splits)

lemma lru_set_bound:
  "calculatedSize (entries c) \<le> maxSize c \<Longrightarrow> calculatedSize (entries (lru_set c k b)) \<le> maxSize c"
proof (cases "maxSize c < blob_size b")
  case True
  assume "calculatedSize (entries c) \<le> maxSize c"
  with True show ?thesis by (simp add: lru_set_def)
next
  case False
  have "calculatedSize (evict (maxSize c - blob_size b) (lru_delete k (entries c)))
          \<le> maxSize c - blob_size b"
    by (rule calculatedSize_evict)
  with False show ?thesis
    by (simp add: lru_set_def calculatedSize_append calculatedSize_Cons calculatedSize_Nil)
qed

lemma lru_get_bound:
  "calculatedSize (entries c) \<le> maxSize c \<Longrightarrow> calculatedSize (entries (snd (lru_get c k))) \<le> maxSize c"
proof (cases "map_of (entries c) k")
  case None
  assume "calculatedSize (entries c) \<le> maxSize c"
  with None show ?thesis by (simp add: lru_get_def)
next
  case (Some b)
  assume le: "calculatedSize (entries c) \<le> maxSize c"
  from Some have "(k, b) \<in> set (entries c)" by (rule map_of_SomeD)
  from calculatedSize_delete_member [OF this] le Some show ?thesis
    by (simp add: lru_get_def calculatedSize_append calculatedSize_Cons calculatedSize_Nil)
qed

lemma within_bound_step: "within_bound c \<Longrightarrow> within_bound (cache_step c op)"
proof (cases op)
  case (Save m b)
  assume "within_bound c"
  with Save lru_set_bound [of "FunGifBlobCache c" "url m" b] show ?thesis
    by (simp add: within_bound_def saveGifMediaToCache_def maxSize_lru_set)
next
  case (Read m)
  assume "within_bound c"
  with Read lru_get_bound [of "FunGifBlobCache c" "url m"] maxSize_lru_get [of "FunGifBlobCache c" "url m"]
  show ?thesis
    by (auto simp: within_bound_def readGifMediaFromCache_def split: option.splits prod.splits)
next
  case (Collect i)
  assume "within_bound c"
  with Collect show ?thesis by (simp add: within_bound_def collect_def)
qed

lemma within_bound_run: "within_bound c \<Longrightarrow> within_bound (cache_run c ops)"
  unfolding cache_run_def
  by (induction ops arbitrary: c) (simp_all add: within_bound_step)

lemma within_bound_initial: "within_bound initial_caches"
  by (simp add: within_bound_def initial_caches_def calculatedSize_Nil)

lemma distinct_touch: "distinct ks \<Longrightarrow> distinct (touch k ks)"
  by (auto simp: touch_def)

lemma filter_drop_filter:
  "distinct xs \<Longrightarrow> filter (\<lambda>x. x \<in> set (drop n (filter P xs))) xs = drop n (filter P xs)"
proof (induction xs arbitrary: n)
  case Nil
  then show ?case by simp
next
  case (Cons x xs)
  then have x: "x \<notin> set xs" and d: "distinct xs" by simp_all
  have notin: "x \<notin> set (drop m (filter P xs))" for m
    using x by (auto dest: in_set_dropD)
  show ?case
  proof (cases "P x")
    case False
    with notin Cons.IH [OF d] show ?thesis by simp
  next
    case True
    show ?thesis
    proof (cases n)
      case 0
      have "filter (\<lambda>y. y = x \<or> y \<in> set (filter P xs)) xs = filter P xs"
        using x by (intro filter_cong) auto
      with True 0 show ?thesis by simp
    next
      case (Suc m)
      with True notin Cons.IH [OF d, of m] show ?thesis by simp
    qed
  qed
qed

lemma map_fst_delete: "map fst (lru_delete k es) = filter (\<lambda>x. x \<noteq> k) (map fst es)"
  by (induction es) (auto simp: lru_delete_def)

lemma filter_commute:
  "filter P (filter Q xs) = filter Q (filter P xs)"
  by (induction xs) auto

lemma order_get:
  assumes "in_access_order c ks"
  shows "in_access_order (snd (lru_get c k)) (touch k ks)"
proof -
  let ?K = "fst ` set (entries c)"
  from assms have d: "distinct ks" and m: "map fst (entries c) = filter (\<lambda>x. x \<in> ?K) ks"
    by (simp_all add: in_access_order_def)
  show ?thesis
  proof (cases "map_of (entries c) k")
    case None
    then have k: "k \<notin> ?K" by (simp add: map_of_eq_None_iff)
    have e: "entries (snd (lru_get c k)) = entries c"
      using None by (simp add: lru_get_def)
    have "filter (\<lambda>x. x \<in> ?K) (filter (\<lambda>x. x \<noteq> k) ks) = filter (\<lambda>x. x \<in> ?K) ks"
      using k by (auto intro!: filter_cong)
    with k have "filter (\<lambda>x. x \<in> ?K) (touch k ks) = filter (\<lambda>x. x \<in> ?K) ks"
      by (simp add: touch_def del: filter_filter)
    with m d show ?thesis
      unfolding in_access_order_def e by (simp add: distinct_touch)
  next
    case (Some b)
    then have "(k, b) \<in> set (entries c)" by (rule map_of_SomeD)
    then have k: "k \<in> ?K" by force
    have e: "entries (snd (lru_get c k)) = lru_delete k (entries c) @ [(k, b)]"
      using Some by (simp add: lru_get_def)
    have keys: "fst ` set (lru_delete k (entries c) @ [(k, b)]) = ?K"
      using k by (auto simp: lru_delete_def image_iff)
    have lhs: "map fst (lru_delete k (entries c) @ [(k, b)])
        = filter (\<lambda>x. x \<noteq> k) (filter (\<lambda>x. x \<in> ?K) ks) @ [k]"
      by (simp add: map_fst_delete m del: filter_filter)
    have rhs: "filter (\<lambda>x. x \<in> ?K) (touch k ks)
        = filter (\<lambda>x. x \<noteq> k) (filter (\<lambda>x. x \<in> ?K) ks) @ [k]"
      using k by (simp add: touch_def filter_commute [of "\<lambda>x. x \<noteq> k"] del: filter_filter)
    from d show ?thesis
      unfolding in_access_order_def e keys lhs rhs by (simp add: distinct_touch)
  qed
qed

lemma order_set:
  assumes "in_access_order c ks"
  shows "in_access_order (lru_set c k b) (accessed (maxSize c) ks (LruSet k b))"
proof (cases "maxSize c < blob_size b")
  case True
  with assms show ?thesis by (simp add: lru_set_def)
next
  case False
  let ?K = "fst ` set (entries c)"
  from assms have d: "distinct ks" and m: "map fst (entries c) = filter (\<lambda>x. x \<in> ?K) ks"
    by (simp_all add: in_access_order_def)
  define ks' where "ks' = filter (\<lambda>x. x \<noteq> k) ks"
  define L where "L = filter (\<lambda>x. x \<in> ?K) ks'"
  have dk: "distinct ks'" and knot: "k \<notin> set ks'"
    using d by (simp_all add: ks'_def)
  from evict_drop [of "maxSize c - blob_size b" "lru_delete k (entries c)"]
  obtain n where n: "evict (maxSize c - blob_size b) (lru_delete k (entries c))
      = drop n (lru_delete k (entries c))"
    by blast
  have e: "entries (lru_set c k b) = drop n (lru_delete k (entries c)) @ [(k, b)]"
    using False n by (simp add: lru_set_def)
  have "map fst (lru_delete k (entries c)) = L"
    unfolding L_def ks'_def map_fst_delete m by (rule filter_commute)
  then have kept: "map fst (drop n (lru_delete k (entries c))) = drop n L"
    by (simp only: drop_map [symmetric])
  have keys: "fst ` set (drop n (lru_delete k (entries c)) @ [(k, b)]) = insert k (set (drop n L))"
    unfolding kept [symmetric] by (simp add: image_Un)
  have lhs: "map fst (drop n (lru_delete k (entries c)) @ [(k, b)]) = drop n L @ [k]"
    by (simp add: kept)
  from filter_drop_filter [OF dk, of n "\<lambda>x. x \<in> ?K"]
  have f: "filter (\<lambda>x. x \<in> set (drop n L)) ks' = drop n L"
    unfolding L_def .
  have "filter (\<lambda>x. x \<in> insert k (set (drop n L))) ks' = filter (\<lambda>x. x \<in> set (drop n L)) ks'"
    using knot by (intro filter_cong) auto
  with f have "filter (\<lambda>x. x \<in> insert k (set (drop n L))) ks' = drop n L"
    by simp
  then have rhs: "filter (\<lambda>x. x \<in> insert k (set (drop n L))) (ks' @ [k]) = drop n L @ [k]"
    by simp
  have t: "accessed (maxSize c) ks (LruSet k b) = ks' @ [k]"
    using False by (simp add: touch_def ks'_def)
  from dk knot show ?thesis
    unfolding in_access_order_def e keys lhs t rhs by simp
qed

lemma maxSize_step: "maxSize (lru_step c op) = maxSize c"
  by (cases op) (simp_all add: lru_set_def lru_get_def split: option.splits)

lemma order_step:
  "in_access_order c ks \<Longrightarrow> in_access_order (lru_step c op) (accessed (maxSize c) ks op)"
  by (cases op) (simp_all add: order_get order_set del: accessed.simps(2))

lemma order_run_general:
  "in_access_order c ks \<Longrightarrow>
   in_access_order (foldl lru_step c ops) (foldl (accessed (maxSize c)) ks ops)"
proof (induction ops arbitrary: c ks)
  case Nil
  then show ?case by simp
next
  case (Cons op ops)
  from Cons.IH [OF order_step [OF Cons.prems, of op]] show ?case
    by (simp add: maxSize_step)
qed

lemma order_run:
  "in_access_order (lru_run \<lparr> maxSize = bound, entries = [] \<rparr> ops) (access_order bound ops)"
  using order_run_general [of "\<lparr> maxSize = bound, entries = [] \<rparr>" "[]" ops]
  by (simp add: lru_run_def access_order_def in_access_order_def)

text \<open>
  C3. After any sequence of cache operations on the caches the module starts with, the
  byte sizes of the entries of the LRU cache add up to at most 50 * 1024 * 1024. An
  insertion that fits the bound on its own keeps the most recently used entries that
  fit beside it: the entries dropped are the first ones of the list, and keeping one
  more of them would exceed the bound. An insertion whose entry alone exceeds the
  bound leaves the cache as it was. After any sequence of gets and sets on an empty
  cache, the list holds the entries in the order of their last access, a get or an
  accepted set, the least recently accessed first: so the entries dropped are the
  least recently accessed ones.
\<close>

theorem durable_tier_bound:
  "calculatedSize (entries (FunGifBlobCache (cache_run initial_caches ops))) \<le> 50 * 1024 * 1024
   \<and> (blob_size b \<le> maxSize c \<longrightarrow>
        (\<exists>n. entries (lru_set c k b) = drop n (lru_delete k (entries c)) @ [(k, b)]
           \<and> calculatedSize (entries (lru_set c k b)) \<le> maxSize c
           \<and> (\<forall>m<n. maxSize c < calculatedSize (drop m (lru_delete k (entries c)) @ [(k, b)]))))
   \<and> (maxSize c < blob_size b \<longrightarrow> lru_set c k b = c)
   \<and> distinct (access_order bound lops)
   \<and> map fst (entries (lru_run \<lparr> maxSize = bound, entries = [] \<rparr> lops))
       = filter (\<lambda>x. x \<in> fst ` set (entries (lru_run \<lparr> maxSize = bound, entries = [] \<rparr> lops)))
           (access_order bound lops)"
proof -
  have a: "calculatedSize (entries (FunGifBlobCache (cache_run initial_caches ops))) \<le> 50 * 1024 * 1024"
    using within_bound_run [OF within_bound_initial, of ops]
    by (simp add: within_bound_def MAX_CACHE_SIZE_def)
  have b: "\<exists>n. entries (lru_set c k b) = drop n (lru_delete k (entries c)) @ [(k, b)]
           \<and> calculatedSize (entries (lru_set c k b)) \<le> maxSize c
           \<and> (\<forall>m<n. maxSize c < calculatedSize (drop m (lru_delete k (entries c)) @ [(k, b)]))"
    if fits: "blob_size b \<le> maxSize c"
  proof -
    from evict_drop [of "maxSize c - blob_size b" "lru_delete k (entries c)"]
    obtain n where n: "evict (maxSize c - blob_size b) (lru_delete k (entries c)) = drop n (lru_delete k (entries c))"
      "calculatedSize (drop n (lru_delete k (entries c))) \<le> maxSize c - blob_size b"
      "\<forall>m<n. maxSize c - blob_size b < calculatedSize (drop m (lru_delete k (entries c)))"
      by blast
    from n(3) fits have "\<forall>m<n. maxSize c < calculatedSize (drop m (lru_delete k (entries c)) @ [(k, b)])"
      by (auto simp: calculatedSize_append calculatedSize_Cons calculatedSize_Nil)
    moreover from n(1,2) fits have "entries (lru_set c k b) = drop n (lru_delete k (entries c)) @ [(k, b)]"
      "calculatedSize (entries (lru_set c k b)) \<le> maxSize c"
      by (simp_all add: lru_set_def calculatedSize_append calculatedSize_Cons calculatedSize_Nil)
    ultimately show ?thesis by blast
  qed
  have c: "maxSize c < blob_size b \<longrightarrow> lru_set c k b = c"
    by (simp add: lru_set_def)
  have d: "distinct (access_order bound lops)"
    "map fst (entries (lru_run \<lparr> maxSize = bound, entries = [] \<rparr> lops))
       = filter (\<lambda>x. x \<in> fst ` set (entries (lru_run \<lparr> maxSize = bound, entries = [] \<rparr> lops)))
           (access_order bound lops)"
    using order_run [of bound lops] by (simp_all add: in_access_order_def)
  from a b c d show ?thesis by blast
qed

theorem durable_tier_bound_witness:
  "lru_set \<lparr> maxSize = 5, entries = [(''a'', Blob [1, 2]), (''b'', Blob [3, 4])] \<rparr> ''c'' (Blob [5, 6])
     = \<lparr> maxSize = 5, entries = [(''b'', Blob [3, 4]), (''c'', Blob [5, 6])] \<rparr>
   \<and> lru_set \<lparr> maxSize = 5, entries = [(''a'', Blob [1, 2]), (''b'', Blob [3, 4])] \<rparr> ''d''
        (Blob [1, 2, 3, 4, 5, 6])
     = \<lparr> maxSize = 5, entries = [(''a'', Blob [1, 2]), (''b'', Blob [3, 4])] \<rparr>
   \<and> calculatedSize (entries (FunGifBlobCache (cache_run initial_caches
        [Save \<lparr> oid = 1, url = ''u1'', width = 160, height = 120 \<rparr> (Blob [1, 2, 3])])))
       \<le> 50 * 1024 * 1024
   \<and> access_order 5
        [LruSet ''a'' (Blob [1, 2]), LruSet ''b'' (Blob [3, 4]), LruGet ''a'', LruSet ''c'' (Blob [5, 6])]
     = [''b'', ''a'', ''c'']
   \<and> entries (lru_run \<lparr> maxSize = 5, entries = [] \<rparr>
        [LruSet ''a'' (Blob [1, 2]), LruSet ''b'' (Blob [3, 4]), LruGet ''a'', LruSet ''c'' (Blob [5, 6])])
     = [(''a'', Blob [1, 2]), (''c'', Blob [5, 6])]"
proof -
  have run: "entries (lru_run \<lparr> maxSize = 5, entries = [] \<rparr>
        [LruSet ''a'' (Blob [1, 2]), LruSet ''b'' (Blob [3, 4]), LruGet ''a'', LruSet ''c'' (Blob [5, 6])])
     = [(''a'', Blob [1, 2]), (''c'', Blob [5, 6])]"
    by (simp add: lru_run_def lru_set_def lru_get_def lru_delete_def calculatedSize_def)
  have order: "access_order 5
        [LruSet ''a'' (Blob [1, 2]), LruSet ''b'' (Blob [3, 4]), LruGet ''a'', LruSet ''c'' (Blob [5, 6])]
     = [''b'', ''a'', ''c'']"
    by (simp add: access_order_def touch_def)
  from
    durable_tier_bound [of
      "[Save \<lparr> oid = 1, url = ''u1'', width = 160, height = 120 \<rparr> (Blob [1, 2, 3])]"
      "Blob [5, 6]" "\<lparr> maxSize = 5, entries = [(''a'', Blob [1, 2]), (''b'', Blob [3, 4])] \<rparr>" "''c''"
      5 "[LruSet ''a'' (Blob [1, 2]), LruSet ''b'' (Blob [3, 4]), LruGet ''a'', LruSet ''c'' (Blob [5, 6])]"]
    durable_tier_bound [of "[]"
      "Blob [1, 2, 3, 4, 5, 6]" "\<lparr> maxSize = 5, entries = [(''a'', Blob [1, 2]), (''b'', Blob [3, 4])] \<rparr>" "''d''"]
    run order
  show ?thesis
    by (simp add: lru_set_def lru_delete_def calculatedSize_def)
qed

lemma live_kept_step:
  "keeps_live i op \<Longrightarrow> FunGifBlobLiveCache (cache_step c op) i = FunGifBlobLiveCache c i"
  by (cases op)
    (auto simp: saveGifMediaToCache_def readGifMediaFromCache_def collect_def
          split: option.splits prod.splits)

lemma live_kept_run:
  "list_all (keeps_live i) ops \<Longrightarrow> FunGifBlobLiveCache (cache_run c ops) i = FunGifBlobLiveCache c i"
  unfolding cache_run_def
  by (induction ops arbitrary: c) (simp_all add: live_kept_step)

lemma read_live_hit:
  "FunGifBlobLiveCache c (oid m) = Some b \<Longrightarrow> readGifMediaFromCache c m = (Some b, c)"
  by (simp add: readGifMediaFromCache_def)

lemma read_live_miss:
  "FunGifBlobLiveCache c (oid m) = None \<Longrightarrow>
   readGifMediaFromCache c m
     = (fst (lru_get (FunGifBlobCache c) (url m)),
        c \<lparr> FunGifBlobCache := snd (lru_get (FunGifBlobCache c) (url m)) \<rparr>)"
  by (simp add: readGifMediaFromCache_def split: prod.splits)

lemma lru_get_hit: "map_of (entries c) k = Some b \<Longrightarrow> fst (lru_get c k) = Some b"
  by (simp add: lru_get_def)

lemma lru_set_holds:
  assumes "blob_size b \<le> maxSize c"
  shows "map_of (entries (lru_set c k b)) k = Some b"
proof -
  have "k \<notin> fst ` set (lru_delete k (entries c))"
    by (auto simp: lru_delete_def)
  with set_evict [of "maxSize c - blob_size b" "lru_delete k (entries c)"]
  have "k \<notin> fst ` set (evict (maxSize c - blob_size b) (lru_delete k (entries c)))"
    by blast
  then have "map_of (evict (maxSize c - blob_size b) (lru_delete k (entries c))) k = None"
    by (simp add: map_of_eq_None_iff)
  with assms show ?thesis
    by (simp add: lru_set_def map_add_def)
qed

text \<open>
  C4. After \<open>saveGifMediaToCache\<close> of a blob under a media object, reading that object
  returns the blob, through any later operations that neither save under the same
  object nor collect it (whatever the LRU cache evicts meanwhile). A read returns the
  WeakMap's entry when there is one and leaves the LRU cache untouched; only on a
  WeakMap miss does it read the LRU cache by url, and it returns the blob the LRU
  cache holds for the url. Saving stores the blob in the WeakMap and inserts it in the
  LRU cache with no condition of its own, so that the LRU cache holds it whenever it
  fits the bound.
\<close>

theorem cache_round_trip:
  "(list_all (keeps_live (oid m)) ops \<longrightarrow>
      fst (readGifMediaFromCache (cache_run (saveGifMediaToCache c m b) ops) m) = Some b)
   \<and> (FunGifBlobLiveCache c (oid m) = Some b' \<longrightarrow> readGifMediaFromCache c m = (Some b', c))
   \<and> (FunGifBlobLiveCache c (oid m) = None \<longrightarrow>
        readGifMediaFromCache c m
          = (fst (lru_get (FunGifBlobCache c) (url m)),
             c \<lparr> FunGifBlobCache := snd (lru_get (FunGifBlobCache c) (url m)) \<rparr>))
   \<and> (FunGifBlobLiveCache c (oid m) = None \<and> map_of (entries (FunGifBlobCache c)) (url m) = Some b'
        \<longrightarrow> fst (readGifMediaFromCache c m) = Some b')
   \<and> FunGifBlobLiveCache (saveGifMediaToCache c m b) (oid m) = Some b
   \<and> FunGifBlobCache (saveGifMediaToCache c m b) = lru_set (FunGifBlobCache c) (url m) b
   \<and> (blob_size b \<le> maxSize (FunGifBlobCache c) \<longrightarrow>
        map_of (entries (FunGifBlobCache (saveGifMediaToCache c m b))) (url m) = Some b)"
proof -
  have a: "fst (readGifMediaFromCache (cache_run (saveGifMediaToCache c m b) ops) m) = Some b"
    if "list_all (keeps_live (oid m)) ops"
  proof -
    from that have "FunGifBlobLiveCache (cache_run (saveGifMediaToCache c m b) ops) (oid m)
        = FunGifBlobLiveCache (saveGifMediaToCache c m b) (oid m)"
      by (rule live_kept_run)
    then have "FunGifBlobLiveCache (cache_run (saveGifMediaToCache c m b) ops) (oid m) = Some b"
      by (simp add: saveGifMediaToCache_def)
    then show ?thesis by (simp add: read_live_hit)
  qed
  have d: "fst (readGifMediaFromCache c m) = Some b'"
    if "FunGifBlobLiveCache c (oid m) = None" "map_of (entries (FunGifBlobCache c)) (url m) = Some b'"
    using that by (simp add: read_live_miss lru_get_hit)
  have e: "FunGifBlobLiveCache (saveGifMediaToCache c m b) (oid m) = Some b"
    "FunGifBlobCache (saveGifMediaToCache c m b) = lru_set (FunGifBlobCache c) (url m) b"
    by (simp_all add: saveGifMediaToCache_def)
  have f: "map_of (entries (FunGifBlobCache (saveGifMediaToCache c m b))) (url m) = Some b"
    if "blob_size b \<le> maxSize (FunGifBlobCache c)"
    using that by (simp add: e(2) lru_set_holds)
  from a d e f read_live_hit [of c m b'] read_live_miss [of c m] show ?thesis by blast
qed

theorem cache_round_trip_witness:
  "fst (readGifMediaFromCache
      (cache_run
        (saveGifMediaToCache initial_caches \<lparr> oid = 1, url = ''u1'', width = 160, height = 120 \<rparr> (Blob [1, 2, 3]))
        [Save \<lparr> oid = 2, url = ''u1'', width = 160, height = 120 \<rparr> (Blob [4]), Collect 2])
      \<lparr> oid = 1, url = ''u1'', width = 160, height = 120 \<rparr>) = Some (Blob [1, 2, 3])
   \<and> fst (readGifMediaFromCache
      (collect
        (saveGifMediaToCache initial_caches \<lparr> oid = 1, url = ''u1'', width = 160, height = 120 \<rparr> (Blob [1, 2, 3])) 1)
      \<lparr> oid = 3, url = ''u1'', width = 160, height = 120 \<rparr>) = Some (Blob [1, 2, 3])"
  using
    cache_round_trip [of "\<lparr> oid = 1, url = ''u1'', width = 160, height = 120 \<rparr>"
      "[Save \<lparr> oid = 2, url = ''u1'', width = 160, height = 120 \<rparr> (Blob [4]), Collect 2]"
      initial_caches "Blob [1, 2, 3]"]
    cache_round_trip [of "\<lparr> oid = 3, url = ''u1'', width = 160, height = 120 \<rparr>" "[]"
      "collect (saveGifMediaToCache initial_caches \<lparr> oid = 1, url = ''u1'', width = 160, height = 120 \<rparr> (Blob [1, 2, 3])) 1"
      "Blob [1, 2, 3]" "Blob [1, 2, 3]"]
  by (simp add: collect_def saveGifMediaToCache_def initial_caches_def lru_set_def lru_delete_def
      MAX_CACHE_SIZE_def readGifMediaFromCache_def lru_get_def)

section \<open>Theorems about the debounced query\<close>

lemma rerender_eq:
  "rerender trim p =
     (if debouncedQuery p = requested trim p then p \<lparr> timeout := None \<rparr>
      else if trim (searchInput p) = ''''
        then p \<lparr> debouncedQuery := requested trim p, timeout := None \<rparr>
      else p \<lparr> timeout := Some (500, requested trim p) \<rparr>)"
  by (cases "debouncedQuery p")
     (auto simp: rerender_def run_effect_def debounce_effect_def requested_def Let_def)

lemma requested_upd [simp]:
  "requested trim (p \<lparr> timeout := t \<rparr>) = requested trim p"
  "requested trim (p \<lparr> sinceChange := k \<rparr>) = requested trim p"
  "requested trim (p \<lparr> debouncedQuery := d \<rparr>) = requested trim p"
  by (simp_all add: requested_def)

lemma settled_mount: "settled trim (mount trim inp sec)"
  by (simp add: settled_def mount_def requested_def)

lemma settled_step: "settled trim p \<Longrightarrow> settled trim (step trim p e)"
proof (cases e)
  case (Change inp sec)
  assume "settled trim p"
  then show ?thesis
    unfolding Change
    by (auto simp: settled_def rerender_eq requested_def split: option.splits)
next
  case Tick
  assume "settled trim p"
  then show ?thesis
    unfolding Tick
    by (auto simp: settled_def rerender_eq split: option.splits)
qed

lemma settled_run: "settled trim p \<Longrightarrow> settled trim (panel_run trim p es)"
  unfolding panel_run_def
  by (induction es arbitrary: p) (simp_all add: settled_step)

lemma panel_run_append:
  "panel_run trim p (es @ fs) = panel_run trim (panel_run trim p es) fs"
  by (simp add: panel_run_def)

lemma panel_run_Cons: "panel_run trim p (e # es) = panel_run trim (step trim p e) es"
  by (simp add: panel_run_def)

lemma panel_run_Nil: "panel_run trim p [] = p"
  by (simp add: panel_run_def)

lemma run_one_more_tick:
  "panel_run trim p (replicate (Suc n) Tick) = step trim (panel_run trim p (replicate n Tick)) Tick"
proof -
  have "replicate (Suc n) Tick = replicate n Tick @ [Tick]"
    by (simp add: replicate_append_same)
  then show ?thesis
    unfolding panel_run_def by (simp only: foldl_append foldl.simps)
qed

lemma ticks_before:
  "timeout p = Some (ms, q) \<Longrightarrow> n < ms \<Longrightarrow>
   panel_run trim p (replicate n Tick)
     = p \<lparr> timeout := Some (ms - n, q), sinceChange := sinceChange p + n \<rparr>"
proof (induction n)
  case 0
  then show ?case by (simp add: panel_run_def)
next
  case (Suc n)
  then have "panel_run trim p (replicate n Tick)
     = p \<lparr> timeout := Some (ms - n, q), sinceChange := sinceChange p + n \<rparr>"
    by simp
  with Suc.prems show ?case
    by (simp only: run_one_more_tick) simp
qed

lemma ticks_fire:
  assumes "settled trim p" and "timeout p = Some (ms, q)"
  shows "debouncedQuery (panel_run trim p (replicate ms Tick)) = requested trim p"
proof -
  from assms have ms: "0 < ms" and q: "q = requested trim p"
    by (simp_all add: settled_def)
  then obtain k where k: "ms = Suc k" by (cases ms) auto
  from assms(2) k have "panel_run trim p (replicate k Tick)
     = p \<lparr> timeout := Some (ms - k, q), sinceChange := sinceChange p + k \<rparr>"
    by (intro ticks_before) simp_all
  with k q show ?thesis
    by (simp only: run_one_more_tick) (simp add: rerender_eq)
qed

lemma trim_ascii_examples:
  "trim_ascii '''' = ''''" "trim_ascii ''cat'' = ''cat''" "trim_ascii ''cats'' = ''cats''"
  "trim_ascii ''cat '' = ''cat''"
  by (simp_all add: trim_ascii_def is_ascii_whitespace_def)

text \<open>
  C1, as the claim states it, fails. The effect depends on the trimmed search text, so
  a change of the search text that leaves the trimmed text as it was neither clears
  the pending timer nor starts a new one. The user types \<open>cat\<close> and, 300 ms later, a
  space: after this last change the timer started by \<open>cat\<close> has 200 ms left, not 500,
  and the query is set 200 ms after the last change, while the claim has the change
  restart the timer and the query set only 500 ms after the last change.
\<close>

theorem debounce_last_change_counterexample:
  "timeout (panel_run trim_ascii (mount trim_ascii '''' Recents)
       ([handleSearchInputChange trim_ascii [] ''cat''] @ replicate 300 Tick
        @ [handleSearchInputChange trim_ascii [] ''cat '']))
     = Some (200, \<lparr> selectedSection = SearchResults, searchQuery = ''cat'' \<rparr>)
   \<and> debouncedQuery (panel_run trim_ascii (mount trim_ascii '''' Recents)
       ([handleSearchInputChange trim_ascii [] ''cat''] @ replicate 300 Tick
        @ [handleSearchInputChange trim_ascii [] ''cat '']))
     = \<lparr> selectedSection = Recents, searchQuery = '''' \<rparr>
   \<and> debouncedQuery (panel_run trim_ascii (mount trim_ascii '''' Recents)
       ([handleSearchInputChange trim_ascii [] ''cat''] @ replicate 300 Tick
        @ [handleSearchInputChange trim_ascii [] ''cat ''] @ replicate 200 Tick))
     = \<lparr> selectedSection = SearchResults, searchQuery = ''cat'' \<rparr>"
proof -
  let ?m = "mount trim_ascii '''' Recents"
  let ?q0 = "\<lparr> selectedSection = Recents, searchQuery = '''' \<rparr>"
  let ?q1 = "\<lparr> selectedSection = SearchResults, searchQuery = ''cat'' \<rparr>"
  note tr = trim_ascii_examples
  have h: "handleSearchInputChange trim_ascii [] ''cat'' = Change ''cat'' SearchResults"
    "handleSearchInputChange trim_ascii [] ''cat '' = Change ''cat '' SearchResults"
    by (simp_all add: handleSearchInputChange_def tr)
  have p1: "panel_run trim_ascii ?m [Change ''cat'' SearchResults]
      = \<lparr> searchInput = ''cat'', selectedGifsSection = SearchResults, debouncedQuery = ?q0,
          timeout = Some (500, ?q1), sinceChange = 0 \<rparr>"
    by (simp add: panel_run_def mount_def rerender_eq requested_def tr)
  have p2: "panel_run trim_ascii ?m ([Change ''cat'' SearchResults] @ replicate 300 Tick)
      = \<lparr> searchInput = ''cat'', selectedGifsSection = SearchResults, debouncedQuery = ?q0,
          timeout = Some (200, ?q1), sinceChange = 300 \<rparr>"
    unfolding panel_run_append p1
    by (subst ticks_before [where ms = 500 and q = ?q1]) simp_all
  define es3 where
    "es3 = [Change ''cat'' SearchResults] @ replicate 300 Tick @ [Change ''cat '' SearchResults]"
  have p3: "panel_run trim_ascii ?m es3
      = \<lparr> searchInput = ''cat '', selectedGifsSection = SearchResults, debouncedQuery = ?q0,
          timeout = Some (200, ?q1), sinceChange = 300 \<rparr>"
    unfolding es3_def append_assoc [symmetric] panel_run_append [of _ _ "_ @ _"] p2
    by (simp add: panel_run_def tr)
  have s3: "settled trim_ascii (panel_run trim_ascii ?m es3)"
    by (rule settled_run) (rule settled_mount)
  have t3: "timeout (panel_run trim_ascii ?m es3) = Some (200, ?q1)"
    by (simp add: p3)
  have r3: "requested trim_ascii (panel_run trim_ascii ?m es3) = ?q1"
    by (simp add: p3 requested_def tr)
  from ticks_fire [OF s3 t3] r3
  have "debouncedQuery (panel_run trim_ascii (panel_run trim_ascii ?m es3) (replicate 200 Tick)) = ?q1"
    by simp
  then have p4: "debouncedQuery (panel_run trim_ascii ?m (es3 @ replicate 200 Tick)) = ?q1"
    by (simp only: panel_run_append)
  from p3 p4 show ?thesis
    unfolding h es3_def by simp
qed

text \<open>
  C1, amended. In every state the panel reaches from its mount through changes of its
  props and the passing of time:
  \<^item> a change to an empty trimmed search text sets the debounced query to the requested
    one at once, and no timer is left;
  \<^item> a change of the trimmed text or of the section to a non-empty text sets nothing
    now: whatever timer was pending is cleared, and a timer of 500 ms for the new
    request starts (none when the debounced query is the request already);
  \<^item> a change of the search text that leaves the trimmed text and the section as they
    were changes nothing but the search text: a pending timer goes on;
  \<^item> whenever an event changes the debounced query, the new value is the query
    requested at that moment, and the event is either a change to an empty text or
    the tick that completes 500 ms since the trimmed text or the section last
    changed: no value that was requested in between and replaced within 500 ms is
    ever set, so none is handed to the loader;
  \<^item> a request that differs from the debounced query is set once 500 ms have passed
    since the trimmed text or the section last changed, and not before.
\<close>

theorem debounce_behaviour:
  fixes trim inp0 sec0 es
  defines "p \<equiv> panel_run trim (mount trim inp0 sec0) es"
  shows
  "(trim inp = '''' \<longrightarrow>
      debouncedQuery (step trim p (Change inp sec)) = \<lparr> selectedSection = sec, searchQuery = '''' \<rparr>
      \<and> timeout (step trim p (Change inp sec)) = None)
   \<and> (trim inp \<noteq> '''' \<and> (trim inp \<noteq> trim (searchInput p) \<or> sec \<noteq> selectedGifsSection p) \<longrightarrow>
      debouncedQuery (step trim p (Change inp sec)) = debouncedQuery p
      \<and> timeout (step trim p (Change inp sec))
          = (if debouncedQuery p = \<lparr> selectedSection = sec, searchQuery = trim inp \<rparr> then None
             else Some (500, \<lparr> selectedSection = sec, searchQuery = trim inp \<rparr>)))
   \<and> (trim inp = trim (searchInput p) \<and> sec = selectedGifsSection p \<longrightarrow>
      step trim p (Change inp sec) = p \<lparr> searchInput := inp \<rparr>)
   \<and> (debouncedQuery (step trim p e) \<noteq> debouncedQuery p \<longrightarrow>
      debouncedQuery (step trim p e) = requested trim (step trim p e)
      \<and> ((\<exists>i s. e = Change i s \<and> trim i = '''')
         \<or> (e = Tick \<and> searchQuery (requested trim (step trim p e)) \<noteq> ''''
            \<and> sinceChange (step trim p e) = 500)))
   \<and> (debouncedQuery p \<noteq> requested trim p \<longrightarrow>
      sinceChange p < 500
      \<and> debouncedQuery (panel_run trim p (replicate (500 - sinceChange p) Tick)) = requested trim p
      \<and> (\<forall>n < 500 - sinceChange p.
            debouncedQuery (panel_run trim p (replicate n Tick)) = debouncedQuery p))"
proof -
  have s: "settled trim p"
    unfolding p_def by (rule settled_run) (rule settled_mount)
  have a: "debouncedQuery (step trim p (Change inp sec)) = \<lparr> selectedSection = sec, searchQuery = '''' \<rparr>
      \<and> timeout (step trim p (Change inp sec)) = None" if "trim inp = ''''"
    using s that
    by (auto simp: settled_def rerender_eq requested_def split: option.splits)
  have b: "debouncedQuery (step trim p (Change inp sec)) = debouncedQuery p
      \<and> timeout (step trim p (Change inp sec))
          = (if debouncedQuery p = \<lparr> selectedSection = sec, searchQuery = trim inp \<rparr> then None
             else Some (500, \<lparr> selectedSection = sec, searchQuery = trim inp \<rparr>))"
    if "trim inp \<noteq> '''' \<and> (trim inp \<noteq> trim (searchInput p) \<or> sec \<noteq> selectedGifsSection p)"
    using that by (auto simp: rerender_eq requested_def)
  have b': "step trim p (Change inp sec) = p \<lparr> searchInput := inp \<rparr>"
    if "trim inp = trim (searchInput p) \<and> sec = selectedGifsSection p"
    using that by simp
  have c: "debouncedQuery (step trim p e) = requested trim (step trim p e)
      \<and> ((\<exists>i s. e = Change i s \<and> trim i = '''')
         \<or> (e = Tick \<and> searchQuery (requested trim (step trim p e)) \<noteq> ''''
            \<and> sinceChange (step trim p e) = 500))"
    if "debouncedQuery (step trim p e) \<noteq> debouncedQuery p"
  proof (cases e)
    case (Change i s')
    with that s show ?thesis
      by (auto simp: rerender_eq requested_def settled_def split: if_splits option.splits)
  next
    case Tick
    with that s show ?thesis
      by (auto simp: rerender_eq settled_def split: if_splits option.splits)
  qed
  have d: "sinceChange p < 500
      \<and> debouncedQuery (panel_run trim p (replicate (500 - sinceChange p) Tick)) = requested trim p
      \<and> (\<forall>n < 500 - sinceChange p.
            debouncedQuery (panel_run trim p (replicate n Tick)) = debouncedQuery p)"
    if "debouncedQuery p \<noteq> requested trim p"
  proof -
    from s that obtain ms q where t: "timeout p = Some (ms, q)"
      by (cases "timeout p") (auto simp: settled_def)
    with s have ms: "0 < ms" "ms + sinceChange p = 500"
      by (simp_all add: settled_def)
    then have eq: "500 - sinceChange p = ms" by simp
    have "debouncedQuery (panel_run trim p (replicate n Tick)) = debouncedQuery p" if "n < ms" for n
      using ticks_before [OF t that, of trim] by simp
    with ticks_fire [OF s t] ms eq show ?thesis by simp
  qed
  from a b b' c d show ?thesis by blast
qed

theorem debounce_behaviour_witness:
  "debouncedQuery (panel_run trim_ascii (mount trim_ascii '''' Recents)
       [handleSearchInputChange trim_ascii [] ''cat'', handleSearchInputChange trim_ascii [] ''cats''])
     = \<lparr> selectedSection = Recents, searchQuery = '''' \<rparr>
   \<and> timeout (panel_run trim_ascii (mount trim_ascii '''' Recents)
       [handleSearchInputChange trim_ascii [] ''cat'', handleSearchInputChange trim_ascii [] ''cats''])
     = Some (500, \<lparr> selectedSection = SearchResults, searchQuery = ''cats'' \<rparr>)
   \<and> timeout (panel_run trim_ascii (mount trim_ascii '''' Recents)
       [handleSearchInputChange trim_ascii [] ''cat'', handleSearchInputChange trim_ascii [] ''cat ''])
     = Some (500, \<lparr> selectedSection = SearchResults, searchQuery = ''cat'' \<rparr>)
   \<and> debouncedQuery (panel_run trim_ascii (mount trim_ascii '''' Recents)
       ([handleSearchInputChange trim_ascii [] ''cat'', handleSearchInputChange trim_ascii [] ''cats'']
        @ replicate 499 Tick))
     = \<lparr> selectedSection = Recents, searchQuery = '''' \<rparr>
   \<and> debouncedQuery (panel_run trim_ascii (mount trim_ascii '''' Recents)
       ([handleSearchInputChange trim_ascii [] ''cat'', handleSearchInputChange trim_ascii [] ''cats'']
        @ replicate 500 Tick))
     = \<lparr> selectedSection = SearchResults, searchQuery = ''cats'' \<rparr>
   \<and> sinceChange (panel_run trim_ascii (mount trim_ascii '''' Recents)
       ([handleSearchInputChange trim_ascii [] ''cat'', handleSearchInputChange trim_ascii [] ''cats'']
        @ replicate 500 Tick))
     = 500
   \<and> debouncedQuery (panel_run trim_ascii (mount trim_ascii '''' Recents)
       [handleSearchInputChange trim_ascii [] ''cat'', handleSearchInputChange trim_ascii [] ''cats'',
        handleSearchInputChange trim_ascii [] ''''])
     = \<lparr> selectedSection = Trending, searchQuery = '''' \<rparr>"
proof -
  let ?m = "mount trim_ascii '''' Recents"
  let ?cat = "handleSearchInputChange trim_ascii [] ''cat''"
  let ?cats = "handleSearchInputChange trim_ascii [] ''cats''"
  let ?catsp = "handleSearchInputChange trim_ascii [] ''cat ''"
  let ?clear = "handleSearchInputChange trim_ascii [] ''''"
  let ?q0 = "\<lparr> selectedSection = Recents, searchQuery = '''' \<rparr>"
  let ?q1 = "\<lparr> selectedSection = SearchResults, searchQuery = ''cat'' \<rparr>"
  let ?q2 = "\<lparr> selectedSection = SearchResults, searchQuery = ''cats'' \<rparr>"
  note tr = trim_ascii_examples
  have h: "?cat = Change ''cat'' SearchResults" "?cats = Change ''cats'' SearchResults"
    "?catsp = Change ''cat '' SearchResults" "?clear = Change '''' Trending"
    by (simp_all add: handleSearchInputChange_def tr)
  have p1: "panel_run trim_ascii ?m [?cat]
      = \<lparr> searchInput = ''cat'', selectedGifsSection = SearchResults, debouncedQuery = ?q0,
          timeout = Some (500, ?q1), sinceChange = 0 \<rparr>"
    by (simp add: h panel_run_def mount_def rerender_eq requested_def tr)
  have p2: "panel_run trim_ascii ?m [?cat, ?cats]
      = \<lparr> searchInput = ''cats'', selectedGifsSection = SearchResults, debouncedQuery = ?q0,
          timeout = Some (500, ?q2), sinceChange = 0 \<rparr>"
    by (simp add: h panel_run_def mount_def rerender_eq requested_def tr)
  have step2: "panel_run trim_ascii ?m [?cat, ?cats]
      = step trim_ascii (panel_run trim_ascii ?m [?cat]) (Change ''cats'' SearchResults)"
    by (simp add: h panel_run_def)
  have step2': "panel_run trim_ascii ?m [?cat, ?catsp]
      = step trim_ascii (panel_run trim_ascii ?m [?cat]) (Change ''cat '' SearchResults)"
    by (simp add: h panel_run_def)
  have step3: "panel_run trim_ascii ?m [?cat, ?cats, ?clear]
      = step trim_ascii (panel_run trim_ascii ?m [?cat, ?cats]) (Change '''' Trending)"
    by (simp add: h panel_run_def)
  \<comment> \<open>typing "cats" while the timer of "cat" runs: nothing is applied, the timer restarts\<close>
  from debounce_behaviour [of trim_ascii "''cats''" "''''" Recents
      "[?cat]" SearchResults Tick]
  have "debouncedQuery (panel_run trim_ascii ?m [?cat, ?cats]) = ?q0
        \<and> timeout (panel_run trim_ascii ?m [?cat, ?cats]) = Some (500, ?q2)"
    unfolding step2 by (simp add: p1 tr)
  moreover
  \<comment> \<open>typing a space after "cat": the timer of "cat" goes on\<close>
  from debounce_behaviour [of trim_ascii "''cat ''" "''''" Recents
      "[?cat]" SearchResults Tick]
  have "timeout (panel_run trim_ascii ?m [?cat, ?catsp]) = Some (500, ?q1)"
    unfolding step2' by (simp add: p1 tr)
  moreover
  \<comment> \<open>clearing the text is applied at once\<close>
  from debounce_behaviour [of trim_ascii "''''" "''''" Recents
      "[?cat, ?cats]" Trending Tick]
  have "debouncedQuery (panel_run trim_ascii ?m [?cat, ?cats, ?clear])
          = \<lparr> selectedSection = Trending, searchQuery = '''' \<rparr>"
    unfolding step3 by (simp add: tr)
  moreover
  \<comment> \<open>"cats" is applied 500 ms after it was typed, and not before\<close>
  have ne: "debouncedQuery (panel_run trim_ascii ?m [?cat, ?cats])
      \<noteq> requested trim_ascii (panel_run trim_ascii ?m [?cat, ?cats])"
    by (simp add: p2 requested_def tr)
  have since: "500 - sinceChange (panel_run trim_ascii ?m [?cat, ?cats]) = 500"
    by (simp add: p2)
  from debounce_behaviour [of trim_ascii "''''" "''''" Recents
      "[?cat, ?cats]" Trending Tick] ne
  have "debouncedQuery (panel_run trim_ascii (panel_run trim_ascii ?m [?cat, ?cats])
            (replicate (500 - sinceChange (panel_run trim_ascii ?m [?cat, ?cats])) Tick))
          = requested trim_ascii (panel_run trim_ascii ?m [?cat, ?cats])
        \<and> (\<forall>n < 500 - sinceChange (panel_run trim_ascii ?m [?cat, ?cats]).
              debouncedQuery (panel_run trim_ascii (panel_run trim_ascii ?m [?cat, ?cats])
                 (replicate n Tick))
                = debouncedQuery (panel_run trim_ascii ?m [?cat, ?cats]))"
    by blast
  then have "debouncedQuery (panel_run trim_ascii (panel_run trim_ascii ?m [?cat, ?cats])
            (replicate 500 Tick))
          = requested trim_ascii (panel_run trim_ascii ?m [?cat, ?cats])
        \<and> debouncedQuery (panel_run trim_ascii (panel_run trim_ascii ?m [?cat, ?cats])
            (replicate 499 Tick))
                = debouncedQuery (panel_run trim_ascii ?m [?cat, ?cats])"
    unfolding since by simp
  then have applied: "debouncedQuery (panel_run trim_ascii ?m ([?cat, ?cats] @ replicate 500 Tick)) = ?q2
        \<and> debouncedQuery (panel_run trim_ascii ?m ([?cat, ?cats] @ replicate 499 Tick)) = ?q0"
    unfolding panel_run_append by (simp add: p2 requested_def tr)
  moreover
  \<comment> \<open>the tick that applies it is the one that completes the 500 ms\<close>
  have "sinceChange (panel_run trim_ascii ?m ([?cat, ?cats] @ replicate 500 Tick)) = 500"
  proof -
    have "(500::nat) = Suc 499" by simp
    then have last_tick: "panel_run trim_ascii ?m ([?cat, ?cats] @ replicate 500 Tick)
        = step trim_ascii (panel_run trim_ascii ?m ([?cat, ?cats] @ replicate 499 Tick)) Tick"
      unfolding panel_run_append by (simp only: run_one_more_tick)
    with applied
    have "debouncedQuery (step trim_ascii (panel_run trim_ascii ?m ([?cat, ?cats] @ replicate 499 Tick)) Tick)
            \<noteq> debouncedQuery (panel_run trim_ascii ?m ([?cat, ?cats] @ replicate 499 Tick))"
      by simp
    with debounce_behaviour [of trim_ascii "''''" "''''" Recents
      "[?cat, ?cats] @ replicate 499 Tick" Trending Tick]
    have "sinceChange (step trim_ascii (panel_run trim_ascii ?m ([?cat, ?cats] @ replicate 499 Tick)) Tick) = 500"
      by blast
    with last_tick show ?thesis by simp
  qed
  ultimately show ?thesis by blast
qed

end
